theory Spec2Isabelle
  imports Main "HOL-Library.Sublist"
begin

section \<open>Mention classification (chexpert\_labeler/stages/classify.py)\<close>

text \<open>
  The module holds two classes. \<open>ModifiedDetector\<close> owns three ordered pattern lists and
  labels the graph nodes of one sentence; \<open>Classifier\<close> drives a parser, a dependency
  converter, the detection aggregation routine and the removal of sentence text over the
  documents of a collection. The parser, the converter, the graph loader, the propagator,
  the node finder and the pattern language are collaborators outside the module: they are
  parameters of the model.
\<close>

subsection \<open>Data\<close>

text \<open>
  Python exceptions. The handler in \<open>detect\<close> is \<open>except Exception\<close>: it catches the
  instances of \<open>Exception\<close> and lets the other instances of \<open>BaseException\<close> (a keyboard
  interrupt, a system exit) pass, so the model keeps the two apart. The string is the class
  name.
\<close>

datatype exn = Exception string | BaseException string

fun is_Exception :: "exn \<Rightarrow> bool" where
  "is_Exception (Exception c) = True"
| "is_Exception (BaseException c) = False"

text \<open>
  Modelled from the spec: the constants \<open>NEGATION\<close> and \<open>UNCERTAINTY\<close> come from
  \<open>chexpert_labeler.constants\<close>, which is not among the sources; the spec gives the label
  as one of the two, and they are taken to be different values.
\<close>

datatype label = NEGATION | UNCERTAINTY

text \<open>
  A match object of the pattern language. \<open>group0\<close> is what \<open>m.group(0)\<close> returns, the
  node the match is bound to; \<open>pattern_of\<close> names the pattern that produced the match and
  \<open>named\<close> holds the other captured nodes. The class defines no truth value of its own, so
  a match object is true in a condition and \<open>if m:\<close> tests that \<open>m\<close> is not \<open>None\<close>.
\<close>

record 'n MatcherObj =
  group0 :: 'n
  pattern_of :: string
  named :: "(string \<times> 'n) list"

text \<open>
  A compiled pattern is known by its \<open>finditer\<close>: the matches it has in a graph, in
  iteration order. A pattern list (\<open>ngrex.load\<close>) is in load order.
\<close>

type_synonym ('g, 'n) pattern = "'g \<Rightarrow> 'n MatcherObj list"

record ('g, 'n) ModifiedDetector =
  neg_patterns :: "('g, 'n) pattern list"
  uncertain_patterns :: "('g, 'n) pattern list"
  preneg_uncertain_patterns :: "('g, 'n) pattern list"

text \<open>A location is a pair \<open>(begin, end)\<close>; a detection is what \<open>detect\<close> yields.\<close>

type_synonym loc = "int \<times> int"

type_synonym 'n detection = "label \<times> 'n MatcherObj \<times> loc"

text \<open>
  The BioC objects, with the fields the module reads. The other fields of a sentence, a
  passage or a document (annotations, relations, infons) are the record extension.
\<close>

record sentence =
  offset :: int
  text_of :: string

record 's passage =
  sentences :: "'s list"

record 'p document =
  passages :: "'p list"

subsection \<open>The constructor of the detector\<close>

text \<open>
  \<open>__init__\<close> loads the negation patterns, then the post-negation uncertainty patterns,
  then the pre-negation uncertainty patterns; a loader that raises ends the constructor.
\<close>

definition ModifiedDetector_init ::
  "(string \<Rightarrow> exn + ('g, 'n) pattern list) \<Rightarrow> string \<Rightarrow> string \<Rightarrow> string
    \<Rightarrow> exn + ('g, 'n) ModifiedDetector" where
  "ModifiedDetector_init load pre_negation_uncertainty_path negation_path
      post_negation_uncertainty_path =
     (case load negation_path of
        Inl e \<Rightarrow> Inl e
      | Inr neg \<Rightarrow>
          (case load post_negation_uncertainty_path of
             Inl e \<Rightarrow> Inl e
           | Inr post \<Rightarrow>
               (case load pre_negation_uncertainty_path of
                  Inl e \<Rightarrow> Inl e
                | Inr pre \<Rightarrow>
                    Inr \<lparr>neg_patterns = neg, uncertain_patterns = post,
                         preneg_uncertain_patterns = pre\<rparr>)))"

subsection \<open>Matching one node\<close>

text \<open>
  The inner loop of the three matchers: \<open>for m in pattern.finditer(graph)\<close> returns the
  first match whose \<open>group(0)\<close> equals the node.
\<close>

fun first_bound :: "'n MatcherObj list \<Rightarrow> 'n \<Rightarrow> 'n MatcherObj option" where
  "first_bound [] node = None"
| "first_bound (m # ms) node =
     (if group0 m = node then Some m else first_bound ms node)"

text \<open>
  The outer loop: \<open>for pattern in patterns\<close>. A pattern with no such match passes to the
  next one; falling off the end of the function returns \<open>None\<close>.
\<close>

fun scan_patterns ::
  "('g, 'n) pattern list \<Rightarrow> 'g \<Rightarrow> 'n \<Rightarrow> 'n MatcherObj option" where
  "scan_patterns [] graph node = None"
| "scan_patterns (pattern # patterns) graph node =
     (case first_bound (pattern graph) node of
        Some m \<Rightarrow> Some m
      | None \<Rightarrow> scan_patterns patterns graph node)"

definition match_uncertainty ::
  "('g, 'n) ModifiedDetector \<Rightarrow> 'g \<Rightarrow> 'n \<Rightarrow> 'n MatcherObj option" where
  "match_uncertainty self graph node = scan_patterns (uncertain_patterns self) graph node"

definition match_prenegation_uncertainty ::
  "('g, 'n) ModifiedDetector \<Rightarrow> 'g \<Rightarrow> 'n \<Rightarrow> 'n MatcherObj option" where
  "match_prenegation_uncertainty self graph node =
     scan_patterns (preneg_uncertain_patterns self) graph node"

text \<open>
  Modelled from the spec: \<open>match_neg\<close> is inherited from the parent class
  \<open>neg_detector.Detector\<close>, which is not among the sources. The spec has the negation set
  scanned the way the two uncertainty sets are: in pattern order, then in match order, the
  first match bound to the node being the result.
\<close>

definition match_neg ::
  "('g, 'n) ModifiedDetector \<Rightarrow> 'g \<Rightarrow> 'n \<Rightarrow> 'n MatcherObj option" where
  "match_neg self graph node = scan_patterns (neg_patterns self) graph node"

subsection \<open>Detection\<close>

text \<open>
  The body of the inner \<open>for\<close> of \<open>detect\<close>: what one candidate node yields. The three
  matchers are tried in the order of the nested conditionals.
\<close>

definition detect_node ::
  "('g, 'n) ModifiedDetector \<Rightarrow> 'g \<Rightarrow> loc \<Rightarrow> 'n \<Rightarrow> 'n detection list" where
  "detect_node self g loc node =
     (case match_prenegation_uncertainty self g node of
        Some preneg_m \<Rightarrow> [(UNCERTAINTY, preneg_m, loc)]
      | None \<Rightarrow>
          (case match_neg self g node of
             Some neg_m \<Rightarrow> [(NEGATION, neg_m, loc)]
           | None \<Rightarrow>
               (case match_uncertainty self g node of
                  Some postneg_m \<Rightarrow> [(UNCERTAINTY, postneg_m, loc)]
                | None \<Rightarrow> [])))"

text \<open>\<open>for node in find_nodes(g, loc[0], loc[1])\<close>, over the nodes found.\<close>

fun detect_nodes ::
  "('g, 'n) ModifiedDetector \<Rightarrow> 'g \<Rightarrow> loc \<Rightarrow> 'n list \<Rightarrow> 'n detection list" where
  "detect_nodes self g loc [] = []"
| "detect_nodes self g loc (node # nodes) =
     detect_node self g loc node @ detect_nodes self g loc nodes"

text \<open>
  The collaborators of \<open>detect\<close>: \<open>semgraph.load\<close> builds the graph of a sentence,
  \<open>propagator.propagate\<close> rewrites it (in place in the source, returned here), and
  \<open>neg_detector.find_nodes\<close> lists the nodes that overlap a span. The first two may raise.
\<close>

record ('a, 'g, 'n) negbio =
  semgraph_load :: "'a sentence_scheme \<Rightarrow> exn + 'g"
  propagate :: "'g \<Rightarrow> exn + 'g"
  find_nodes :: "'g \<Rightarrow> int \<Rightarrow> int \<Rightarrow> 'n list"

text \<open>\<open>for loc in locs\<close>.\<close>

fun detect_locs ::
  "('a, 'g, 'n) negbio \<Rightarrow> ('g, 'n) ModifiedDetector \<Rightarrow> 'g \<Rightarrow> loc list
    \<Rightarrow> 'n detection list" where
  "detect_locs nb self g [] = []"
| "detect_locs nb self g (loc # locs) =
     detect_nodes self g loc (find_nodes nb g (fst loc) (snd loc)) @ detect_locs nb self g locs"

text \<open>Decimal digits of an integer, as the f-string writes \<open>sentence.offset\<close>.\<close>

fun str_nat :: "nat \<Rightarrow> string" where
  "str_nat n =
     (if n < 10 then [char_of (48 + n)] else str_nat (n div 10) @ [char_of (48 + n mod 10)])"

definition str_int :: "int \<Rightarrow> string" where
  "str_int i = (if i < 0 then CHR ''-'' # str_nat (nat (- i)) else str_nat (nat i))"

definition cannot_parse :: "int \<Rightarrow> string" where
  "cannot_parse off = ''Cannot parse dependency graph '' @ ''[offset='' @ str_int off @ '']''"

text \<open>
  What a full iteration of the generator \<open>detect(sentence, locs)\<close> leaves behind: the
  messages given to \<open>logger.exception\<close>, the detections yielded, and the exception that
  ended the iteration, if any.
\<close>

record 'n detect_run =
  logged :: "string list"
  yielded :: "'n detection list"
  raised :: "exn option"

text \<open>The handler: log when the exception is an \<open>Exception\<close>, and raise it again.\<close>

definition detect_failed :: "'a sentence_scheme \<Rightarrow> exn \<Rightarrow> 'n detect_run" where
  "detect_failed sentence e =
     \<lparr>logged = (if is_Exception e then [cannot_parse (offset sentence)] else []),
      yielded = [], raised = Some e\<rparr>"

definition detect ::
  "('a, 'g, 'n) negbio \<Rightarrow> ('g, 'n) ModifiedDetector \<Rightarrow> 'a sentence_scheme \<Rightarrow> loc list
    \<Rightarrow> 'n detect_run" where
  "detect nb self sentence locs =
     (case semgraph_load nb sentence of
        Inl e \<Rightarrow> detect_failed sentence e
      | Inr g0 \<Rightarrow>
          (case propagate nb g0 of
             Inl e \<Rightarrow> detect_failed sentence e
           | Inr g \<Rightarrow> \<lparr>logged = [], yielded = detect_locs nb self g locs, raised = None\<rparr>))"

text \<open>
  The candidates of a sentence, in the order the two nested loops of \<open>detect\<close> reach
  them: the locations in list order and, within a location, the nodes in the order
  \<open>find_nodes\<close> produces them.
\<close>

definition candidates :: "('a, 'g, 'n) negbio \<Rightarrow> 'g \<Rightarrow> loc list \<Rightarrow> (loc \<times> 'n) list" where
  "candidates nb g locs =
     concat (map (\<lambda>loc. map (Pair loc) (find_nodes nb g (fst loc) (snd loc))) locs)"

text \<open>The location and the bound node of a detection.\<close>

definition det_loc :: "'n detection \<Rightarrow> loc" where
  "det_loc d = snd (snd d)"

definition det_node :: "'n detection \<Rightarrow> 'n" where
  "det_node d = group0 (fst (snd d))"

subsection \<open>The classifier\<close>

text \<open>
  \<open>parser\<close> and \<open>ptb2dep\<close> stand for the \<open>parse_doc\<close> and \<open>convert_doc\<close> methods of the
  two objects the constructor builds. Both change the document in place and may raise:
  \<open>Inr d'\<close> is the changed document, \<open>Inl (e, d')\<close> the exception together with the state
  the document was left in.
\<close>

type_synonym 'd stage = "'d \<Rightarrow> (exn \<times> 'd) + 'd"

record ('d, 'g, 'n) Classifier =
  parser :: "'d stage"
  ptb2dep :: "'d stage"
  verbose :: bool
  detector :: "('g, 'n) ModifiedDetector"

text \<open>
  \<open>negdetect.detect(document, detector)\<close>, the aggregation routine: it is given the
  \<open>detect\<close> method of the detector and the document.
\<close>

type_synonym ('a, 'd, 'n) negdetect =
  "('a sentence_scheme \<Rightarrow> loc list \<Rightarrow> 'n detect_run) \<Rightarrow> 'd stage"

text \<open>
  \<open>del document.passages[0].sentences[:]\<close>: indexing an empty passage list raises
  \<open>IndexError\<close>; otherwise the sentence list of the first passage is emptied.
\<close>

definition del_sentences ::
  "(('s, 'b) passage_scheme, 'c) document_scheme
    \<Rightarrow> (exn \<times> (('s, 'b) passage_scheme, 'c) document_scheme)
        + (('s, 'b) passage_scheme, 'c) document_scheme" where
  "del_sentences document =
     (case passages document of
        [] \<Rightarrow> Inl (Exception ''IndexError'', document)
      | p # ps \<Rightarrow> Inr (document\<lparr>passages := p\<lparr>sentences := []\<rparr> # ps\<rparr>))"

text \<open>The body of the loop of \<open>classify\<close>, for one document.\<close>

definition classify_document ::
  "((('s, 'b) passage_scheme, 'c) document_scheme, 'g, 'n) Classifier
    \<Rightarrow> ('a, (('s, 'b) passage_scheme, 'c) document_scheme, 'n) negdetect
    \<Rightarrow> ('a, 'g, 'n) negbio
    \<Rightarrow> (('s, 'b) passage_scheme, 'c) document_scheme stage" where
  "classify_document self negdetect_detect nb document =
     (case parser self document of
        Inl x \<Rightarrow> Inl x
      | Inr d1 \<Rightarrow>
          (case ptb2dep self d1 of
             Inl x \<Rightarrow> Inl x
           | Inr d2 \<Rightarrow>
               (case negdetect_detect (detect nb (detector self)) d2 of
                  Inl x \<Rightarrow> Inl x
                | Inr d3 \<Rightarrow> del_sentences d3)))"

text \<open>
  \<open>for document in documents\<close>. The documents of a collection are distinct objects; the
  loop changes them in place, so a failure leaves the documents before it classified, the
  failing one as its stage left it, and the ones after it untouched.
\<close>

fun classify_documents ::
  "((('s, 'b) passage_scheme, 'c) document_scheme, 'g, 'n) Classifier
    \<Rightarrow> ('a, (('s, 'b) passage_scheme, 'c) document_scheme, 'n) negdetect
    \<Rightarrow> ('a, 'g, 'n) negbio
    \<Rightarrow> (('s, 'b) passage_scheme, 'c) document_scheme list stage" where
  "classify_documents self negdetect_detect nb [] = Inr []"
| "classify_documents self negdetect_detect nb (document # documents) =
     (case classify_document self negdetect_detect nb document of
        Inl (e, d') \<Rightarrow> Inl (e, d' # documents)
      | Inr d' \<Rightarrow>
          (case classify_documents self negdetect_detect nb documents of
             Inl (e, ds') \<Rightarrow> Inl (e, d' # ds')
           | Inr ds' \<Rightarrow> Inr (d' # ds')))"

record 'd collection =
  documents :: "'d list"

text \<open>
  What a call of \<open>classify\<close> leaves behind: the lines printed, the collection, and the
  exception that ended the call, if any. With \<open>verbose\<close> the documents are wrapped in a
  progress bar, which yields them unchanged and in the same order.
\<close>

record 'd classify_run =
  printed :: "string list"
  collection_after :: "'d collection"
  failure :: "exn option"

definition classify ::
  "((('s, 'b) passage_scheme, 'c) document_scheme, 'g, 'n) Classifier
    \<Rightarrow> ('a, (('s, 'b) passage_scheme, 'c) document_scheme, 'n) negdetect
    \<Rightarrow> ('a, 'g, 'n) negbio
    \<Rightarrow> (('s, 'b) passage_scheme, 'c) document_scheme collection
    \<Rightarrow> (('s, 'b) passage_scheme, 'c) document_scheme classify_run" where
  "classify self negdetect_detect nb collection =
     (let out = (if verbose self then [''Classifying mentions...''] else [])
      in case classify_documents self negdetect_detect nb (documents collection) of
           Inl (e, ds') \<Rightarrow>
             \<lparr>printed = out, collection_after = collection\<lparr>documents := ds'\<rparr>,
              failure = Some e\<rparr>
         | Inr ds' \<Rightarrow>
             \<lparr>printed = out, collection_after = collection\<lparr>documents := ds'\<rparr>,
              failure = None\<rparr>)"

text \<open>The sentence text a document still holds, passage by passage.\<close>

definition retained_text ::
  "(('a sentence_scheme, 'b) passage_scheme, 'c) document_scheme \<Rightarrow> string list" where
  "retained_text document = concat (map (\<lambda>p. map text_of (sentences p)) (passages document))"

text \<open>
  One document passes the four steps of the loop body, in this order, each once and each
  on what the step before it returned.
\<close>

definition four_steps ::
  "((('s, 'b) passage_scheme, 'c) document_scheme, 'g, 'n) Classifier
    \<Rightarrow> ('a, (('s, 'b) passage_scheme, 'c) document_scheme, 'n) negdetect
    \<Rightarrow> ('a, 'g, 'n) negbio
    \<Rightarrow> (('s, 'b) passage_scheme, 'c) document_scheme
    \<Rightarrow> (('s, 'b) passage_scheme, 'c) document_scheme \<Rightarrow> bool" where
  "four_steps self negdetect_detect nb d d' =
     (\<exists>d1 d2 d3. parser self d = Inr d1 \<and> ptb2dep self d1 = Inr d2 \<and>
        negdetect_detect (detect nb (detector self)) d2 = Inr d3 \<and> del_sentences d3 = Inr d')"

subsection \<open>Example inputs\<close>

text \<open>
  The sentence "no pleural effusion" at offset 120: three tokens, the nodes 0, 1 and 2 with
  their character ranges. The example loader refuses a sentence without text, the example
  propagator returns the graph as it is, and the example node finder lists the nodes whose
  range lies within the span.
\<close>

type_synonym ex_graph = "(nat \<times> int \<times> int) list"

definition ex_g :: ex_graph where
  "ex_g = [(0, 0, 2), (1, 3, 10), (2, 11, 19)]"

definition ex_sentence :: sentence where
  "ex_sentence = \<lparr>offset = 120, text_of = ''no pleural effusion''\<rparr>"

definition ex_blank :: sentence where
  "ex_blank = \<lparr>offset = 140, text_of = []\<rparr>"

definition ex_load :: "sentence \<Rightarrow> exn + ex_graph" where
  "ex_load s = (if text_of s = [] then Inl (Exception ''KeyError'') else Inr ex_g)"

definition ex_find :: "ex_graph \<Rightarrow> int \<Rightarrow> int \<Rightarrow> nat list" where
  "ex_find g b e = map fst (filter (\<lambda>t. b \<le> fst (snd t) \<and> snd (snd t) \<le> e) g)"

definition ex_nb :: "(unit, ex_graph, nat) negbio" where
  "ex_nb = \<lparr>semgraph_load = ex_load, propagate = Inr, find_nodes = ex_find\<rparr>"

text \<open>Matches and patterns: a pattern here has the same matches in every graph.\<close>

definition ex_m :: "string \<Rightarrow> nat \<Rightarrow> nat MatcherObj" where
  "ex_m p n = \<lparr>group0 = n, pattern_of = p, named = []\<rparr>"

definition ex_neg :: "(ex_graph, nat) pattern" where
  "ex_neg g = [ex_m ''neg'' 1, ex_m ''neg'' 2]"

definition ex_pre_a :: "(ex_graph, nat) pattern" where
  "ex_pre_a g = [ex_m ''pre_a'' 0, ex_m ''pre_a'' 2]"

definition ex_pre_b :: "(ex_graph, nat) pattern" where
  "ex_pre_b g = [ex_m ''pre_b'' 2]"

definition ex_post_a :: "(ex_graph, nat) pattern" where
  "ex_post_a g = [ex_m ''post_a'' 3, ex_m ''post_a'' 1]"

definition ex_post_b :: "(ex_graph, nat) pattern" where
  "ex_post_b g = [ex_m ''post_b'' 1, ex_m ''post_b'' 2]"

text \<open>A detector with negation patterns only, and one with all three sets.\<close>

definition ex_negation_only :: "(ex_graph, nat) ModifiedDetector" where
  "ex_negation_only =
     \<lparr>neg_patterns = [ex_neg], uncertain_patterns = [], preneg_uncertain_patterns = []\<rparr>"

definition ex_detector :: "(ex_graph, nat) ModifiedDetector" where
  "ex_detector =
     \<lparr>neg_patterns = [ex_neg], uncertain_patterns = [ex_post_a, ex_post_b],
      preneg_uncertain_patterns = [ex_pre_a, ex_pre_b]\<rparr>"

text \<open>
  Documents, and example stages: a parser that changes nothing, a converter that refuses a
  document with more than three passages, and an aggregation routine that runs the detector
  on every sentence of the document with the one span (3, 19) and stops at the first
  sentence whose run raised.
\<close>

type_synonym ex_document = "sentence passage document"

definition ex_doc1 :: ex_document where
  "ex_doc1 = \<lparr>passages = [\<lparr>sentences = [ex_sentence]\<rparr>]\<rparr>"

definition ex_doc2 :: ex_document where
  "ex_doc2 =
     \<lparr>passages = [\<lparr>sentences = [ex_sentence]\<rparr>,
                  \<lparr>sentences = [\<lparr>offset = 200, text_of = ''heart size is normal''\<rparr>]\<rparr>]\<rparr>"

definition ex_doc_blank :: ex_document where
  "ex_doc_blank = \<lparr>passages = [\<lparr>sentences = [ex_blank]\<rparr>]\<rparr>"

definition ex_doc_no_passage :: ex_document where
  "ex_doc_no_passage = \<lparr>passages = []\<rparr>"

definition ex_convert :: "ex_document stage" where
  "ex_convert d =
     (if 3 < length (passages d) then Inl (Exception ''ValueError'', d) else Inr d)"

fun first_raised :: "nat detect_run list \<Rightarrow> exn option" where
  "first_raised [] = None"
| "first_raised (r # rs) = (case raised r of Some e \<Rightarrow> Some e | None \<Rightarrow> first_raised rs)"

definition ex_negdetect :: "(unit, ex_document, nat) negdetect" where
  "ex_negdetect det d =
     (case first_raised (map (\<lambda>s. det s [(3, 19)]) (concat (map sentences (passages d)))) of
        Some e \<Rightarrow> Inl (e, d)
      | None \<Rightarrow> Inr d)"

definition ex_classifier :: "(ex_document, ex_graph, nat) Classifier" where
  "ex_classifier =
     \<lparr>parser = Inr, ptb2dep = ex_convert, verbose = False, detector = ex_detector\<rparr>"

text \<open>The first two documents once their first passage has lost its sentences.\<close>

definition ex_doc1_after :: ex_document where
  "ex_doc1_after = \<lparr>passages = [\<lparr>sentences = []\<rparr>]\<rparr>"

definition ex_doc2_after :: ex_document where
  "ex_doc2_after =
     \<lparr>passages = [\<lparr>sentences = []\<rparr>,
                  \<lparr>sentences = [\<lparr>offset = 200, text_of = ''heart size is normal''\<rparr>]\<rparr>]\<rparr>"

section \<open>Properties\<close>

subsection \<open>The scan of a pattern list\<close>

text \<open>
  The inner loop finds nothing exactly when no match is bound to the node, and what it
  finds is the first such match of the list.
\<close>

lemma first_bound_None_iff:
  "first_bound ms node = None \<longleftrightarrow> (\<forall>m\<in>set ms. group0 m \<noteq> node)"
  by (induction ms) auto

lemma first_bound_Some_iff:
  "first_bound ms node = Some m \<longleftrightarrow>
     (\<exists>ms1 ms2. ms = ms1 @ m # ms2 \<and> group0 m = node \<and> (\<forall>m'\<in>set ms1. group0 m' \<noteq> node))"
proof (induction ms)
  case Nil
  then show ?case by simp
next
  case (Cons a ms)
  show ?case
  proof (cases "group0 a = node")
    case True
    have "(\<exists>ms1 ms2. a # ms = ms1 @ m # ms2 \<and> group0 m = node \<and> (\<forall>m'\<in>set ms1. group0 m' \<noteq> node))
          \<longleftrightarrow> m = a"
    proof
      assume "\<exists>ms1 ms2. a # ms = ms1 @ m # ms2 \<and> group0 m = node \<and> (\<forall>m'\<in>set ms1. group0 m' \<noteq> node)"
      then obtain ms1 ms2 where d: "a # ms = ms1 @ m # ms2" and n: "\<forall>m'\<in>set ms1. group0 m' \<noteq> node"
        by blast
      show "m = a"
      proof (cases ms1)
        case Nil
        with d show ?thesis by simp
      next
        case (Cons b bs)
        with d have "b = a" by simp
        with Cons n True show ?thesis by simp
      qed
    next
      assume "m = a"
      with True have "a # ms = [] @ m # ms \<and> group0 m = node \<and> (\<forall>m'\<in>set []. group0 m' \<noteq> node)"
        by simp
      then show "\<exists>ms1 ms2. a # ms = ms1 @ m # ms2 \<and> group0 m = node \<and> (\<forall>m'\<in>set ms1. group0 m' \<noteq> node)"
        by blast
    qed
    with True show ?thesis by auto
  next
    case False
    have "(\<exists>ms1 ms2. a # ms = ms1 @ m # ms2 \<and> group0 m = node \<and> (\<forall>m'\<in>set ms1. group0 m' \<noteq> node))
          \<longleftrightarrow> (\<exists>ms1 ms2. ms = ms1 @ m # ms2 \<and> group0 m = node \<and> (\<forall>m'\<in>set ms1. group0 m' \<noteq> node))"
      (is "?L \<longleftrightarrow> ?R")
    proof
      assume ?L
      then obtain ms1 ms2 where d: "a # ms = ms1 @ m # ms2" and g: "group0 m = node"
        and n: "\<forall>m'\<in>set ms1. group0 m' \<noteq> node"
        by blast
      show ?R
      proof (cases ms1)
        case Nil
        with d g False show ?thesis by simp
      next
        case (Cons b bs)
        with d n g have "ms = bs @ m # ms2 \<and> group0 m = node \<and> (\<forall>m'\<in>set bs. group0 m' \<noteq> node)"
          by simp
        then show ?thesis by blast
      qed
    next
      assume ?R
      then obtain ms1 ms2 where "ms = ms1 @ m # ms2" "group0 m = node"
        "\<forall>m'\<in>set ms1. group0 m' \<noteq> node"
        by blast
      with False have "a # ms = (a # ms1) @ m # ms2 \<and> group0 m = node \<and>
          (\<forall>m'\<in>set (a # ms1). group0 m' \<noteq> node)"
        by simp
      then show ?L by blast
    qed
    with False Cons.IH show ?thesis by simp
  qed
qed

lemma first_bound_Some:
  "first_bound ms node = Some m \<Longrightarrow> m \<in> set ms \<and> group0 m = node"
  by (induction ms) (auto split: if_splits)

lemma scan_patterns_None_iff:
  "scan_patterns ps g node = None \<longleftrightarrow> (\<forall>p\<in>set ps. \<forall>m\<in>set (p g). group0 m \<noteq> node)"
  by (induction ps) (auto simp: first_bound_None_iff split: option.splits dest: first_bound_Some)

lemma scan_patterns_Some:
  "scan_patterns ps g node = Some m \<Longrightarrow> group0 m = node \<and> (\<exists>p\<in>set ps. m \<in> set (p g))"
  by (induction ps) (auto split: option.splits dest: first_bound_Some)

lemma scan_patterns_Some_iff:
  "scan_patterns ps g node = Some m \<longleftrightarrow>
     (\<exists>ps1 p ps2. ps = ps1 @ p # ps2 \<and> (\<forall>q\<in>set ps1. \<forall>m'\<in>set (q g). group0 m' \<noteq> node) \<and>
        first_bound (p g) node = Some m)"
proof (induction ps)
  case Nil
  then show ?case by simp
next
  case (Cons a ps)
  show ?case
  proof (cases "first_bound (a g) node")
    case None
    then have na: "\<forall>m'\<in>set (a g). group0 m' \<noteq> node"
      by (simp add: first_bound_None_iff)
    have "(\<exists>ps1 p ps2. a # ps = ps1 @ p # ps2 \<and> (\<forall>q\<in>set ps1. \<forall>m'\<in>set (q g). group0 m' \<noteq> node) \<and>
        first_bound (p g) node = Some m) \<longleftrightarrow>
       (\<exists>ps1 p ps2. ps = ps1 @ p # ps2 \<and> (\<forall>q\<in>set ps1. \<forall>m'\<in>set (q g). group0 m' \<noteq> node) \<and>
        first_bound (p g) node = Some m)" (is "?L \<longleftrightarrow> ?R")
    proof
      assume ?L
      then obtain ps1 p ps2 where d: "a # ps = ps1 @ p # ps2"
        and n: "\<forall>q\<in>set ps1. \<forall>m'\<in>set (q g). group0 m' \<noteq> node"
        and f: "first_bound (p g) node = Some m"
        by blast
      show ?R
      proof (cases ps1)
        case Nil
        with d f None show ?thesis by simp
      next
        case (Cons b bs)
        with d n f have "ps = bs @ p # ps2 \<and> (\<forall>q\<in>set bs. \<forall>m'\<in>set (q g). group0 m' \<noteq> node) \<and>
          first_bound (p g) node = Some m"
          by simp
        then show ?thesis by blast
      qed
    next
      assume ?R
      then obtain ps1 p ps2 where "ps = ps1 @ p # ps2"
        "\<forall>q\<in>set ps1. \<forall>m'\<in>set (q g). group0 m' \<noteq> node" "first_bound (p g) node = Some m"
        by blast
      with na have "a # ps = (a # ps1) @ p # ps2 \<and>
          (\<forall>q\<in>set (a # ps1). \<forall>m'\<in>set (q g). group0 m' \<noteq> node) \<and> first_bound (p g) node = Some m"
        by simp
      then show ?L by blast
    qed
    with None Cons.IH show ?thesis by simp
  next
    case (Some b)
    then have ba: "b \<in> set (a g)" "group0 b = node"
      using first_bound_Some by fastforce+
    have "(\<exists>ps1 p ps2. a # ps = ps1 @ p # ps2 \<and> (\<forall>q\<in>set ps1. \<forall>m'\<in>set (q g). group0 m' \<noteq> node) \<and>
        first_bound (p g) node = Some m) \<longleftrightarrow> m = b" (is "?L \<longleftrightarrow> _")
    proof
      assume ?L
      then obtain ps1 p ps2 where d: "a # ps = ps1 @ p # ps2"
        and n: "\<forall>q\<in>set ps1. \<forall>m'\<in>set (q g). group0 m' \<noteq> node"
        and f: "first_bound (p g) node = Some m"
        by blast
      show "m = b"
      proof (cases ps1)
        case Nil
        with d f Some show ?thesis by simp
      next
        case (Cons c cs)
        with d have "c = a" by simp
        with Cons n ba show ?thesis by auto
      qed
    next
      assume "m = b"
      with Some have "a # ps = [] @ a # ps \<and> (\<forall>q\<in>set []. \<forall>m'\<in>set (q g). group0 m' \<noteq> node) \<and>
          first_bound (a g) node = Some m"
        by simp
      then show ?L by blast
    qed
    with Some show ?thesis by auto
  qed
qed

text \<open>
  Once a pattern has a match bound to the node, the patterns after it have no part in the
  result.
\<close>

lemma scan_patterns_later:
  assumes "\<exists>m\<in>set (p g). group0 m = node"
  shows "scan_patterns (ps1 @ p # ps2) g node = scan_patterns (ps1 @ [p]) g node"
proof (induction ps1)
  case Nil
  from assms have "first_bound (p g) node \<noteq> None"
    by (simp add: first_bound_None_iff)
  then show ?case by (auto split: option.splits)
next
  case (Cons a ps1)
  then show ?case by (simp split: option.splits)
qed

lemma scan_patterns_earliest:
  "scan_patterns ps g node = Some m \<longleftrightarrow>
     (\<exists>ps1 p ps2 ms1 ms2. ps = ps1 @ p # ps2 \<and> p g = ms1 @ m # ms2 \<and> group0 m = node \<and>
        (\<forall>m'\<in>set ms1. group0 m' \<noteq> node) \<and>
        (\<forall>q\<in>set ps1. \<forall>m'\<in>set (q g). group0 m' \<noteq> node))"
  unfolding scan_patterns_Some_iff first_bound_Some_iff by blast

text \<open>The definitions of the example inputs, for evaluation.\<close>

lemmas ex_defs = ex_detector_def ex_negation_only_def ex_neg_def
  ex_pre_a_def ex_pre_b_def ex_post_a_def ex_post_b_def ex_m_def

subsection \<open>The two uncertainty matchers\<close>

text \<open>
  Claim C2. When several patterns of one uncertainty pattern set have a match bound to the
  candidate node, the match that \<open>match_uncertainty\<close> and
  \<open>match_prenegation_uncertainty\<close> return comes from the earliest such pattern in load
  order, and within that pattern it is the first such match in iteration order: the
  matcher returns \<open>m\<close> exactly when the pattern list splits into patterns with no match
  bound to the node, then a pattern whose matches split into matches not bound to the
  node, then \<open>m\<close>, which is bound to it. No later pattern is consulted: whatever follows
  the first pattern with a match bound to the node can be dropped without changing the
  result.
\<close>

theorem match_is_earliest_in_load_order:
  fixes graph :: 'g and node :: 'n
  shows
  "(match_uncertainty self graph node = Some m \<longleftrightarrow>
      (\<exists>ps1 p ps2 ms1 ms2. uncertain_patterns self = ps1 @ p # ps2 \<and>
         p graph = ms1 @ m # ms2 \<and> group0 m = node \<and>
         (\<forall>m'\<in>set ms1. group0 m' \<noteq> node) \<and>
         (\<forall>q\<in>set ps1. \<forall>m'\<in>set (q graph). group0 m' \<noteq> node))) \<and>
   (match_prenegation_uncertainty self graph node = Some m \<longleftrightarrow>
      (\<exists>ps1 p ps2 ms1 ms2. preneg_uncertain_patterns self = ps1 @ p # ps2 \<and>
         p graph = ms1 @ m # ms2 \<and> group0 m = node \<and>
         (\<forall>m'\<in>set ms1. group0 m' \<noteq> node) \<and>
         (\<forall>q\<in>set ps1. \<forall>m'\<in>set (q graph). group0 m' \<noteq> node))) \<and>
   (\<forall>ps1 p ps2. (\<exists>m'\<in>set (p graph). group0 m' = node) \<longrightarrow>
      match_uncertainty (self\<lparr>uncertain_patterns := ps1 @ p # ps2\<rparr>) graph node =
      match_uncertainty (self\<lparr>uncertain_patterns := ps1 @ [p]\<rparr>) graph node \<and>
      match_prenegation_uncertainty (self\<lparr>preneg_uncertain_patterns := ps1 @ p # ps2\<rparr>) graph node =
      match_prenegation_uncertainty (self\<lparr>preneg_uncertain_patterns := ps1 @ [p]\<rparr>) graph node)"
proof (intro conjI allI impI)
  show "match_uncertainty self graph node = Some m \<longleftrightarrow>
      (\<exists>ps1 p ps2 ms1 ms2. uncertain_patterns self = ps1 @ p # ps2 \<and>
         p graph = ms1 @ m # ms2 \<and> group0 m = node \<and>
         (\<forall>m'\<in>set ms1. group0 m' \<noteq> node) \<and>
         (\<forall>q\<in>set ps1. \<forall>m'\<in>set (q graph). group0 m' \<noteq> node))"
    unfolding match_uncertainty_def by (rule scan_patterns_earliest)
  show "match_prenegation_uncertainty self graph node = Some m \<longleftrightarrow>
      (\<exists>ps1 p ps2 ms1 ms2. preneg_uncertain_patterns self = ps1 @ p # ps2 \<and>
         p graph = ms1 @ m # ms2 \<and> group0 m = node \<and>
         (\<forall>m'\<in>set ms1. group0 m' \<noteq> node) \<and>
         (\<forall>q\<in>set ps1. \<forall>m'\<in>set (q graph). group0 m' \<noteq> node))"
    unfolding match_prenegation_uncertainty_def by (rule scan_patterns_earliest)
next
  fix ps1 ps2 :: "('g, 'n) pattern list" and p :: "('g, 'n) pattern"
  assume b: "\<exists>m'\<in>set (p graph). group0 m' = node"
  show "match_uncertainty (self\<lparr>uncertain_patterns := ps1 @ p # ps2\<rparr>) graph node =
      match_uncertainty (self\<lparr>uncertain_patterns := ps1 @ [p]\<rparr>) graph node"
    unfolding match_uncertainty_def using b scan_patterns_later [of p graph node ps1 ps2] by simp
  show "match_prenegation_uncertainty (self\<lparr>preneg_uncertain_patterns := ps1 @ p # ps2\<rparr>) graph node =
      match_prenegation_uncertainty (self\<lparr>preneg_uncertain_patterns := ps1 @ [p]\<rparr>) graph node"
    unfolding match_prenegation_uncertainty_def using b scan_patterns_later [of p graph node ps1 ps2] by simp
qed

theorem match_is_earliest_in_load_order_witness:
  "match_uncertainty ex_detector ex_g 2 = Some (ex_m ''post_b'' 2) \<and>
   match_prenegation_uncertainty ex_detector ex_g 2 = Some (ex_m ''pre_a'' 2)"
proof -
  have "\<exists>ps1 p ps2 ms1 ms2. uncertain_patterns ex_detector = ps1 @ p # ps2 \<and>
         p ex_g = ms1 @ ex_m ''post_b'' 2 # ms2 \<and> group0 (ex_m ''post_b'' 2) = 2 \<and>
         (\<forall>m'\<in>set ms1. group0 m' \<noteq> 2) \<and>
         (\<forall>q\<in>set ps1. \<forall>m'\<in>set (q ex_g). group0 m' \<noteq> 2)"
    apply (rule exI [of _ "[ex_post_a]"])
    apply (rule exI [of _ "ex_post_b"])
    apply (rule exI [of _ "[]"])
    apply (rule exI [of _ "[ex_m ''post_b'' 1]"])
    apply (rule exI [of _ "[]"])
    apply (simp add: ex_defs)
    done
  then have a: "match_uncertainty ex_detector ex_g 2 = Some (ex_m ''post_b'' 2)"
    using match_is_earliest_in_load_order [of ex_detector ex_g 2 "ex_m ''post_b'' 2"] by blast
  have "\<exists>ps1 p ps2 ms1 ms2. preneg_uncertain_patterns ex_detector = ps1 @ p # ps2 \<and>
         p ex_g = ms1 @ ex_m ''pre_a'' 2 # ms2 \<and> group0 (ex_m ''pre_a'' 2) = 2 \<and>
         (\<forall>m'\<in>set ms1. group0 m' \<noteq> 2) \<and>
         (\<forall>q\<in>set ps1. \<forall>m'\<in>set (q ex_g). group0 m' \<noteq> 2)"
    apply (rule exI [of _ "[]"])
    apply (rule exI [of _ "ex_pre_a"])
    apply (rule exI [of _ "[ex_pre_b]"])
    apply (rule exI [of _ "[ex_m ''pre_a'' 0]"])
    apply (rule exI [of _ "[]"])
    apply (simp add: ex_defs)
    done
  then have b: "match_prenegation_uncertainty ex_detector ex_g 2 = Some (ex_m ''pre_a'' 2)"
    using match_is_earliest_in_load_order [of ex_detector ex_g 2 "ex_m ''pre_a'' 2"] by blast
  from a b show ?thesis by simp
qed

text \<open>
  Claim C9. \<open>match_uncertainty\<close> and \<open>match_prenegation_uncertainty\<close> return \<open>None\<close>
  exactly when no pattern of their set has a match whose \<open>group(0)\<close> equals the candidate
  node, and a match they return is a match of one of the patterns of the set with
  \<open>group(0)\<close> equal to the node.
\<close>

theorem match_none_iff_unbound:
  "(match_uncertainty self graph node = None \<longleftrightarrow>
      \<not> (\<exists>p\<in>set (uncertain_patterns self). \<exists>m\<in>set (p graph). group0 m = node)) \<and>
   (match_prenegation_uncertainty self graph node = None \<longleftrightarrow>
      \<not> (\<exists>p\<in>set (preneg_uncertain_patterns self). \<exists>m\<in>set (p graph). group0 m = node)) \<and>
   (\<forall>m. match_uncertainty self graph node = Some m \<longrightarrow>
      group0 m = node \<and> (\<exists>p\<in>set (uncertain_patterns self). m \<in> set (p graph))) \<and>
   (\<forall>m. match_prenegation_uncertainty self graph node = Some m \<longrightarrow>
      group0 m = node \<and> (\<exists>p\<in>set (preneg_uncertain_patterns self). m \<in> set (p graph)))"
proof -
  have none: "scan_patterns ps graph node = None \<longleftrightarrow>
      \<not> (\<exists>p\<in>set ps. \<exists>m\<in>set (p graph). group0 m = node)" for ps
    by (simp add: scan_patterns_None_iff)
  have some: "\<forall>m. scan_patterns ps graph node = Some m \<longrightarrow>
      group0 m = node \<and> (\<exists>p\<in>set ps. m \<in> set (p graph))" for ps
    by (auto dest: scan_patterns_Some)
  show ?thesis
    unfolding match_uncertainty_def match_prenegation_uncertainty_def
    by (intro conjI none some)
qed

theorem match_none_iff_unbound_witness:
  "match_uncertainty ex_detector ex_g 0 = None \<and>
   match_prenegation_uncertainty ex_detector ex_g 1 = None \<and>
   match_uncertainty ex_detector ex_g 2 \<noteq> None \<and>
   match_prenegation_uncertainty ex_detector ex_g 2 \<noteq> None \<and>
   map_option group0 (match_uncertainty ex_detector ex_g 2) = Some 2 \<and>
   map_option group0 (match_prenegation_uncertainty ex_detector ex_g 2) = Some 2"
proof -
  note c = match_none_iff_unbound [of ex_detector ex_g]
  have a: "match_uncertainty ex_detector ex_g 0 = None"
    using c [of 0] by (simp add: ex_defs)
  have b: "match_prenegation_uncertainty ex_detector ex_g 1 = None"
    using c [of 1] by (simp add: ex_defs)
  have d: "match_uncertainty ex_detector ex_g 2 \<noteq> None"
    using c [of 2] by (simp add: ex_defs)
  have e: "match_prenegation_uncertainty ex_detector ex_g 2 \<noteq> None"
    using c [of 2] by (simp add: ex_defs)
  from d obtain m where m: "match_uncertainty ex_detector ex_g 2 = Some m" by blast
  with c [of 2] have f: "group0 m = 2" by blast
  from e obtain m' where m': "match_prenegation_uncertainty ex_detector ex_g 2 = Some m'" by blast
  with c [of 2] have g: "group0 m' = 2" by blast
  from a b d e m f m' g show ?thesis by simp
qed

subsection \<open>Detection: one node, one location, one sentence\<close>

text \<open>
  One candidate node yields at most one detection; its location is the location at hand
  and its match is bound to the node. The loops concatenate what the candidates yield.
\<close>

lemma detect_node_length: "length (detect_node self g loc node) \<le> 1"
  by (simp add: detect_node_def split: option.splits)

lemma detect_node_mem:
  "d \<in> set (detect_node self g loc node) \<Longrightarrow> det_loc d = loc \<and> det_node d = node"
  by (auto simp: detect_node_def det_loc_def det_node_def match_uncertainty_def
      match_prenegation_uncertainty_def match_neg_def
      split: option.splits dest: scan_patterns_Some scan_patterns_Some [OF sym])

lemma detect_nodes_concat:
  "detect_nodes self g loc nodes = concat (map (detect_node self g loc) nodes)"
  by (induction nodes) simp_all

lemma detect_locs_concat:
  "detect_locs nb self g locs =
     concat (map (\<lambda>c. detect_node self g (fst c) (snd c)) (candidates nb g locs))"
proof (induction locs)
  case Nil
  then show ?case by (simp add: candidates_def)
next
  case (Cons loc locs)
  have "candidates nb g (loc # locs) =
      map (Pair loc) (find_nodes nb g (fst loc) (snd loc)) @ candidates nb g locs"
    by (simp add: candidates_def)
  moreover have "detect_nodes self g loc ns =
      concat (map (\<lambda>c. detect_node self g (fst c) (snd c)) (map (Pair loc) ns))" for ns
    by (simp add: detect_nodes_concat comp_def)
  ultimately show ?case using Cons.IH by simp
qed

lemma detect_locs_append:
  "detect_locs nb self g (locs1 @ locs2) = detect_locs nb self g locs1 @ detect_locs nb self g locs2"
  by (induction locs1) simp_all

lemma detect_node_subseq:
  "subseq (map (\<lambda>d. (det_loc d, det_node d)) (detect_node self g loc node)) [(loc, node)]"
proof (cases "detect_node self g loc node")
  case Nil
  then show ?thesis by simp
next
  case (Cons d ds)
  with detect_node_length [of self g loc node] have ds: "ds = []" by simp
  from Cons have "d \<in> set (detect_node self g loc node)" by simp
  then have "det_loc d = loc \<and> det_node d = node" by (rule detect_node_mem)
  with Cons ds show ?thesis by simp
qed

lemma concat_detect_subseq:
  "subseq (map (\<lambda>d. (det_loc d, det_node d))
      (concat (map (\<lambda>c. detect_node self g (fst c) (snd c)) cs))) cs"
proof (induction cs)
  case Nil
  then show ?case by simp
next
  case (Cons c cs)
  have "subseq (map (\<lambda>d. (det_loc d, det_node d)) (detect_node self g (fst c) (snd c))) [c]"
    using detect_node_subseq [of self g "fst c" "snd c"] by simp
  from list_emb_append_mono [OF this Cons.IH] show ?case by simp
qed

lemma detect_ok:
  "semgraph_load nb sentence = Inr g0 \<Longrightarrow> propagate nb g0 = Inr g \<Longrightarrow>
   detect nb self sentence locs = \<lparr>logged = [], yielded = detect_locs nb self g locs, raised = None\<rparr>"
  by (simp add: detect_def)

lemma detect_locs_mem:
  "d \<in> set (detect_locs nb self g locs) \<longleftrightarrow>
     (\<exists>loc\<in>set locs. \<exists>node\<in>set (find_nodes nb g (fst loc) (snd loc)).
        d \<in> set (detect_node self g loc node))"
  by (induction locs) (auto simp: detect_nodes_concat)

lemma detect_node_preneg:
  "match_prenegation_uncertainty self g node = Some m \<Longrightarrow>
   detect_node self g loc node = [(UNCERTAINTY, m, loc)]"
  by (simp add: detect_node_def)

lemma detect_node_unbound:
  fixes g :: 'g and node :: 'n
  assumes "\<not> (\<exists>p\<in>set (preneg_uncertain_patterns self). \<exists>m\<in>set (p g). group0 m = node)"
    and "\<not> (\<exists>p\<in>set (neg_patterns self). \<exists>m\<in>set (p g). group0 m = node)"
    and "\<not> (\<exists>p\<in>set (uncertain_patterns self). \<exists>m\<in>set (p g). group0 m = node)"
  shows "detect_node self g loc node = []"
proof -
  from assms have "scan_patterns (preneg_uncertain_patterns self) g node = None"
    "scan_patterns (neg_patterns self) g node = None"
    "scan_patterns (uncertain_patterns self) g node = None"
    by (simp_all add: scan_patterns_None_iff)
  then show ?thesis
    by (simp add: detect_node_def match_uncertainty_def match_prenegation_uncertainty_def
        match_neg_def)
qed

lemmas ex_run_defs = ex_nb_def ex_load_def ex_find_def ex_g_def ex_sentence_def ex_blank_def

lemmas detect_defs = detect_def detect_failed_def detect_node_def match_uncertainty_def
  match_prenegation_uncertainty_def match_neg_def cannot_parse_def

text \<open>
  Claim C1. A node bound by some pattern of the pre-negation uncertainty set yields
  \<open>UNCERTAINTY\<close> with the match of \<open>match_prenegation_uncertainty\<close>, whether or not a
  pattern of the negation set binds it too. The negation and post-negation sets are not
  evaluated: replacing them by any other pattern lists leaves the detection as it is. Over
  a whole sentence, every detection whose match is bound to the node is that
  \<open>UNCERTAINTY\<close> detection, so none is \<open>NEGATION\<close>, and the detection is yielded for every
  location of the list in which the node is found.
\<close>

theorem prenegation_uncertainty_precedes_negation:
  fixes g :: 'g and node :: 'n
  assumes "\<exists>p\<in>set (preneg_uncertain_patterns self). \<exists>m\<in>set (p g). group0 m = node"
  shows "\<exists>m. match_prenegation_uncertainty self g node = Some m \<and>
      detect_node self g loc node = [(UNCERTAINTY, m, loc)] \<and>
      (\<forall>negs posts.
         detect_node (self\<lparr>neg_patterns := negs, uncertain_patterns := posts\<rparr>) g loc node =
         [(UNCERTAINTY, m, loc)]) \<and>
      (semgraph_load nb sentence = Inr g0 \<and> propagate nb g0 = Inr g \<longrightarrow>
         (\<forall>d\<in>set (yielded (detect nb self sentence locs)).
            det_node d = node \<longrightarrow> fst d = UNCERTAINTY \<and> fst (snd d) = m) \<and>
         (\<forall>l\<in>set locs. node \<in> set (find_nodes nb g (fst l) (snd l)) \<longrightarrow>
            (UNCERTAINTY, m, l) \<in> set (yielded (detect nb self sentence locs))))"
proof -
  from assms have "match_prenegation_uncertainty self g node \<noteq> None"
    by (simp add: match_prenegation_uncertainty_def scan_patterns_None_iff)
  then obtain m where m: "match_prenegation_uncertainty self g node = Some m"
    by blast
  have one: "detect_node self g l node = [(UNCERTAINTY, m, l)]" for l
    using m by (rule detect_node_preneg)
  have upd: "detect_node (self\<lparr>neg_patterns := negs, uncertain_patterns := posts\<rparr>) g loc node =
         [(UNCERTAINTY, m, loc)]" for negs posts
    using m by (simp add: detect_node_def match_prenegation_uncertainty_def)
  have run: "(\<forall>d\<in>set (yielded (detect nb self sentence locs)).
            det_node d = node \<longrightarrow> fst d = UNCERTAINTY \<and> fst (snd d) = m) \<and>
         (\<forall>l\<in>set locs. node \<in> set (find_nodes nb g (fst l) (snd l)) \<longrightarrow>
            (UNCERTAINTY, m, l) \<in> set (yielded (detect nb self sentence locs)))"
    if ok: "semgraph_load nb sentence = Inr g0" "propagate nb g0 = Inr g"
  proof (intro conjI ballI impI)
    fix d
    assume d: "d \<in> set (yielded (detect nb self sentence locs))" and n: "det_node d = node"
    from d ok have "d \<in> set (detect_locs nb self g locs)"
      by (simp add: detect_ok)
    then obtain l node' where d': "d \<in> set (detect_node self g l node')"
      unfolding detect_locs_mem by blast
    with n have "node' = node" using detect_node_mem [of d self g l node'] by simp
    with d' one [of l] show "fst d = UNCERTAINTY" "fst (snd d) = m" by simp_all
  next
    fix l
    assume "l \<in> set locs" "node \<in> set (find_nodes nb g (fst l) (snd l))"
    then have "(UNCERTAINTY, m, l) \<in> set (detect_locs nb self g locs)"
      unfolding detect_locs_mem using one [of l] by force
    with ok show "(UNCERTAINTY, m, l) \<in> set (yielded (detect nb self sentence locs))"
      by (simp add: detect_ok)
  qed
  from m one [of loc] upd run show ?thesis by blast
qed

theorem prenegation_uncertainty_precedes_negation_witness:
  "(\<exists>p\<in>set (preneg_uncertain_patterns ex_detector). \<exists>m\<in>set (p ex_g). group0 m = 2) \<and>
   (\<exists>p\<in>set (neg_patterns ex_detector). \<exists>m\<in>set (p ex_g). group0 m = 2) \<and>
   detect_node ex_detector ex_g (3, 19) 2 = [(UNCERTAINTY, ex_m ''pre_a'' 2, (3, 19))] \<and>
   (UNCERTAINTY, ex_m ''pre_a'' 2, (3, 19))
     \<in> set (yielded (detect ex_nb ex_detector ex_sentence [(3, 19)])) \<and>
   (NEGATION, ex_m ''neg'' 2, (3, 19))
     \<notin> set (yielded (detect ex_nb ex_detector ex_sentence [(3, 19)]))"
proof -
  have pre: "\<exists>p\<in>set (preneg_uncertain_patterns ex_detector). \<exists>m\<in>set (p ex_g). group0 m = 2"
    by (simp add: ex_defs)
  have neg: "\<exists>p\<in>set (neg_patterns ex_detector). \<exists>m\<in>set (p ex_g). group0 m = 2"
    by (simp add: ex_defs)
  have ok: "semgraph_load ex_nb ex_sentence = Inr ex_g \<and> propagate ex_nb ex_g = Inr ex_g"
    by (simp add: ex_run_defs)
  have m: "match_prenegation_uncertainty ex_detector ex_g 2 = Some (ex_m ''pre_a'' 2)"
    by (simp add: match_prenegation_uncertainty_def ex_defs)
  have n: "2 \<in> set (find_nodes ex_nb ex_g (fst (3, 19)) (snd (3, 19)))"
    by (simp add: ex_run_defs)
  from prenegation_uncertainty_precedes_negation [OF pre, of "(3, 19)" ex_nb ex_sentence ex_g "[(3, 19)]"] m ok
  have one: "detect_node ex_detector ex_g (3, 19) 2 = [(UNCERTAINTY, ex_m ''pre_a'' 2, (3, 19))]"
    and all: "\<forall>d\<in>set (yielded (detect ex_nb ex_detector ex_sentence [(3, 19)])).
            det_node d = 2 \<longrightarrow> fst d = UNCERTAINTY \<and> fst (snd d) = ex_m ''pre_a'' 2"
    and mem: "\<forall>l\<in>set [(3, 19)]. 2 \<in> set (find_nodes ex_nb ex_g (fst l) (snd l)) \<longrightarrow>
            (UNCERTAINTY, ex_m ''pre_a'' 2, l) \<in> set (yielded (detect ex_nb ex_detector ex_sentence [(3, 19)]))"
    by auto
  from mem n have yes: "(UNCERTAINTY, ex_m ''pre_a'' 2, (3, 19))
     \<in> set (yielded (detect ex_nb ex_detector ex_sentence [(3, 19)]))"
    by simp
  have no: "(NEGATION, ex_m ''neg'' 2, (3, 19))
     \<notin> set (yielded (detect ex_nb ex_detector ex_sentence [(3, 19)]))"
  proof
    assume "(NEGATION, ex_m ''neg'' 2, (3, 19))
       \<in> set (yielded (detect ex_nb ex_detector ex_sentence [(3, 19)]))"
    with all have "det_node (NEGATION, ex_m ''neg'' 2, (3, 19)) = 2 \<longrightarrow>
        fst (NEGATION, ex_m ''neg'' 2, (3::int, 19::int)) = UNCERTAINTY"
      by blast
    then show False by (simp add: det_node_def ex_m_def)
  qed
  from pre neg one yes no show ?thesis by blast
qed




text \<open>
  Claim C4. When no pattern of the three sets has a match bound to the candidate node,
  \<open>detect\<close> yields nothing for the node: the loop body yields no detection, and no
  detection of the sentence has a match bound to the node.
\<close>

theorem unbound_node_yields_nothing:
  fixes g :: 'g and node :: 'n
  assumes "\<not> (\<exists>p\<in>set (preneg_uncertain_patterns self). \<exists>m\<in>set (p g). group0 m = node)"
    and "\<not> (\<exists>p\<in>set (neg_patterns self). \<exists>m\<in>set (p g). group0 m = node)"
    and "\<not> (\<exists>p\<in>set (uncertain_patterns self). \<exists>m\<in>set (p g). group0 m = node)"
  shows "detect_node self g loc node = [] \<and>
     (semgraph_load nb sentence = Inr g0 \<and> propagate nb g0 = Inr g \<longrightarrow>
        (\<forall>d\<in>set (yielded (detect nb self sentence locs)). det_node d \<noteq> node))"
proof -
  have none: "detect_node self g l node = []" for l
    using assms by (rule detect_node_unbound)
  have "\<forall>d\<in>set (yielded (detect nb self sentence locs)). det_node d \<noteq> node"
    if ok: "semgraph_load nb sentence = Inr g0" "propagate nb g0 = Inr g"
  proof
    fix d
    assume "d \<in> set (yielded (detect nb self sentence locs))"
    with ok have "d \<in> set (detect_locs nb self g locs)"
      by (simp add: detect_ok)
    then obtain l node' where d': "d \<in> set (detect_node self g l node')"
      unfolding detect_locs_mem by blast
    show "det_node d \<noteq> node"
    proof
      assume "det_node d = node"
      with d' have "node' = node" using detect_node_mem [of d self g l node'] by simp
      with d' none [of l] show False by simp
    qed
  qed
  with none [of loc] show ?thesis by blast
qed

theorem unbound_node_yields_nothing_witness:
  "\<not> (\<exists>p\<in>set (preneg_uncertain_patterns ex_negation_only). \<exists>m\<in>set (p ex_g). group0 m = 0) \<and>
   \<not> (\<exists>p\<in>set (neg_patterns ex_negation_only). \<exists>m\<in>set (p ex_g). group0 m = 0) \<and>
   \<not> (\<exists>p\<in>set (uncertain_patterns ex_negation_only). \<exists>m\<in>set (p ex_g). group0 m = 0) \<and>
   detect_node ex_negation_only ex_g (0, 2) 0 = [] \<and>
   find_nodes ex_nb ex_g 0 2 = [0] \<and>
   yielded (detect ex_nb ex_negation_only ex_sentence [(0, 2)]) = []"
proof -
  have a: "\<not> (\<exists>p\<in>set (preneg_uncertain_patterns ex_negation_only). \<exists>m\<in>set (p ex_g). group0 m = 0)"
    by (simp add: ex_defs)
  have b: "\<not> (\<exists>p\<in>set (neg_patterns ex_negation_only). \<exists>m\<in>set (p ex_g). group0 m = 0)"
    by (simp add: ex_defs)
  have c: "\<not> (\<exists>p\<in>set (uncertain_patterns ex_negation_only). \<exists>m\<in>set (p ex_g). group0 m = 0)"
    by (simp add: ex_defs)
  note t = unbound_node_yields_nothing [OF a b c, of "(0, 2)" ex_nb ex_sentence ex_g "[(0, 2)]"]
  have f: "find_nodes ex_nb ex_g 0 2 = [0]"
    by (simp add: ex_run_defs)
  have ok: "semgraph_load ex_nb ex_sentence = Inr ex_g" "propagate ex_nb ex_g = Inr ex_g"
    by (simp_all add: ex_run_defs)
  from t have d: "detect_node ex_negation_only ex_g (0, 2) 0 = []" by simp
  with ok f have "yielded (detect ex_nb ex_negation_only ex_sentence [(0, 2)]) = []"
    by (simp add: detect_def)
  with a b c d f show ?thesis by blast
qed

text \<open>
  Claim C5. The detections of a sentence are what the candidates yield, concatenated in
  candidate order: the locations in the order of the list and, within a location, the
  nodes in the order \<open>find_nodes\<close> gives them. So the (location, node) pairs of the
  detections are a subsequence of the candidates, their locations a subsequence of the
  candidates' locations, and the detections of a list of locations followed by another are
  those of the first followed by those of the second.
\<close>

theorem detections_in_candidate_order:
  assumes "semgraph_load nb sentence = Inr g0" and "propagate nb g0 = Inr g"
  shows "yielded (detect nb self sentence locs) =
       concat (map (\<lambda>c. detect_node self g (fst c) (snd c)) (candidates nb g locs)) \<and>
     subseq (map (\<lambda>d. (det_loc d, det_node d)) (yielded (detect nb self sentence locs)))
       (candidates nb g locs) \<and>
     subseq (map det_loc (yielded (detect nb self sentence locs)))
       (map fst (candidates nb g locs)) \<and>
     yielded (detect nb self sentence (locs @ locs')) =
       yielded (detect nb self sentence locs) @ yielded (detect nb self sentence locs')"
proof -
  have y: "yielded (detect nb self sentence ls) = detect_locs nb self g ls" for ls
    using assms by (simp add: detect_ok)
  have a: "subseq (map (\<lambda>d. (det_loc d, det_node d)) (detect_locs nb self g locs))
       (candidates nb g locs)"
    unfolding detect_locs_concat by (rule concat_detect_subseq)
  have "subseq (map fst (map (\<lambda>d. (det_loc d, det_node d)) (detect_locs nb self g locs)))
       (map fst (candidates nb g locs))"
    using a by (rule subseq_map)
  then have b: "subseq (map det_loc (detect_locs nb self g locs)) (map fst (candidates nb g locs))"
    by (simp add: comp_def)
  show ?thesis
    unfolding y using a b detect_locs_concat [of nb self g locs] detect_locs_append [of nb self g locs locs']
    by simp
qed

theorem detections_in_candidate_order_witness:
  "semgraph_load ex_nb ex_sentence = Inr ex_g \<and> propagate ex_nb ex_g = Inr ex_g \<and>
   candidates ex_nb ex_g [(11, 19), (0, 10)] = [((11, 19), 2), ((0, 10), 0), ((0, 10), 1)] \<and>
   yielded (detect ex_nb ex_detector ex_sentence [(11, 19), (0, 10)]) =
     [(UNCERTAINTY, ex_m ''pre_a'' 2, (11, 19)), (UNCERTAINTY, ex_m ''pre_a'' 0, (0, 10)),
      (NEGATION, ex_m ''neg'' 1, (0, 10))]"
proof -
  have ok: "semgraph_load ex_nb ex_sentence = Inr ex_g" "propagate ex_nb ex_g = Inr ex_g"
    by (simp_all add: ex_run_defs)
  have c: "candidates ex_nb ex_g [(11, 19), (0, 10)] = [((11, 19), 2), ((0, 10), 0), ((0, 10), 1)]"
    by (simp add: candidates_def ex_run_defs)
  from detections_in_candidate_order [OF ok, of ex_detector "[(11, 19), (0, 10)]" "[]"]
  have "yielded (detect ex_nb ex_detector ex_sentence [(11, 19), (0, 10)]) =
       concat (map (\<lambda>c. detect_node ex_detector ex_g (fst c) (snd c))
         (candidates ex_nb ex_g [(11, 19), (0, 10)]))"
    by blast
  also have "\<dots> = [(UNCERTAINTY, ex_m ''pre_a'' 2, (11, 19)), (UNCERTAINTY, ex_m ''pre_a'' 0, (0, 10)),
      (NEGATION, ex_m ''neg'' 1, (0, 10))]"
    unfolding c by (simp add: detect_defs ex_defs)
  finally show ?thesis using ok c by simp
qed

text \<open>
  Claim C6. When \<open>semgraph.load\<close> or \<open>propagator.propagate\<close> raises, \<open>detect\<close> ends with
  that same exception and yields no detection; when the exception is an \<open>Exception\<close>, the
  one the handler catches, the message logged holds the offset of the sentence. An
  exception that is not an \<open>Exception\<close> passes the handler and is not logged.
\<close>

theorem graph_failure_logged_and_reraised:
  assumes "semgraph_load nb sentence = Inl e \<or>
     (\<exists>g0. semgraph_load nb sentence = Inr g0 \<and> propagate nb g0 = Inl e)"
  shows "raised (detect nb self sentence locs) = Some e \<and>
     yielded (detect nb self sentence locs) = [] \<and>
     (is_Exception e \<longrightarrow>
        logged (detect nb self sentence locs) =
          [''Cannot parse dependency graph [offset='' @ str_int (offset sentence) @ '']'']) \<and>
     (\<not> is_Exception e \<longrightarrow> logged (detect nb self sentence locs) = [])"
  using assms
  by (auto simp: detect_def detect_failed_def cannot_parse_def)

theorem graph_failure_logged_and_reraised_witness:
  "semgraph_load ex_nb ex_blank = Inl (Exception ''KeyError'') \<and>
   detect ex_nb ex_detector ex_blank [(3, 19)] =
     \<lparr>logged = [''Cannot parse dependency graph [offset=140]''], yielded = [],
      raised = Some (Exception ''KeyError'')\<rparr> \<and>
   semgraph_load (ex_nb\<lparr>propagate := \<lambda>g. Inl (Exception ''ValueError'')\<rparr>) ex_sentence = Inr ex_g \<and>
   detect (ex_nb\<lparr>propagate := \<lambda>g. Inl (Exception ''ValueError'')\<rparr>) ex_detector ex_sentence [(3, 19)] =
     \<lparr>logged = [''Cannot parse dependency graph [offset=120]''], yielded = [],
      raised = Some (Exception ''ValueError'')\<rparr>"
proof -
  have s140: "str_int 140 = ''140''" by code_simp
  have s120: "str_int 120 = ''120''" by code_simp
  have l: "semgraph_load ex_nb ex_blank = Inl (Exception ''KeyError'')"
    by (simp add: ex_run_defs)
  then have h: "semgraph_load ex_nb ex_blank = Inl (Exception ''KeyError'') \<or>
     (\<exists>g0. semgraph_load ex_nb ex_blank = Inr g0 \<and> propagate ex_nb g0 = Inl (Exception ''KeyError''))"
    by simp
  have o: "offset ex_blank = 140" "offset ex_sentence = 120"
    by (simp_all add: ex_run_defs)
  from graph_failure_logged_and_reraised [OF h, of ex_detector "[(3, 19)]"] s140 o
  have a: "detect ex_nb ex_detector ex_blank [(3, 19)] =
     \<lparr>logged = [''Cannot parse dependency graph [offset=140]''], yielded = [],
      raised = Some (Exception ''KeyError'')\<rparr>"
    by (cases "detect ex_nb ex_detector ex_blank [(3, 19)]") simp
  let ?nb = "ex_nb\<lparr>propagate := \<lambda>g. Inl (Exception ''ValueError'')\<rparr>"
  have l2: "semgraph_load ?nb ex_sentence = Inr ex_g"
    by (simp add: ex_run_defs)
  then have h2: "semgraph_load ?nb ex_sentence = Inl (Exception ''ValueError'') \<or>
     (\<exists>g0. semgraph_load ?nb ex_sentence = Inr g0 \<and> propagate ?nb g0 = Inl (Exception ''ValueError''))"
    by simp
  from graph_failure_logged_and_reraised [OF h2, of ex_detector "[(3, 19)]"] s120 o
  have b: "detect ?nb ex_detector ex_sentence [(3, 19)] =
     \<lparr>logged = [''Cannot parse dependency graph [offset=120]''], yielded = [],
      raised = Some (Exception ''ValueError'')\<rparr>"
    by (cases "detect ?nb ex_detector ex_sentence [(3, 19)]") simp
  from l a l2 b show ?thesis by blast
qed

subsection \<open>Classification of a collection\<close>

text \<open>
  A document is classified exactly when the four steps succeed on it one after the other,
  and the loop succeeds exactly when they do on every document; a failure is the failure of
  the first document that fails, with the documents before it classified and the ones
  after it untouched.
\<close>

lemma classify_document_Inr_iff:
  "classify_document self nd nb d = Inr d' \<longleftrightarrow> four_steps self nd nb d d'"
  by (auto simp: classify_document_def four_steps_def split: sum.splits)

lemma classify_document_Inl_iff:
  "classify_document self nd nb d = Inl x \<longleftrightarrow>
     parser self d = Inl x \<or>
     (\<exists>d1. parser self d = Inr d1 \<and>
        (ptb2dep self d1 = Inl x \<or>
         (\<exists>d2. ptb2dep self d1 = Inr d2 \<and>
            (nd (detect nb (detector self)) d2 = Inl x \<or>
             (\<exists>d3. nd (detect nb (detector self)) d2 = Inr d3 \<and> del_sentences d3 = Inl x)))))"
  by (auto simp: classify_document_def split: sum.splits)

lemma classify_documents_Inr_iff:
  "classify_documents self nd nb ds = Inr ds' \<longleftrightarrow> list_all2 (four_steps self nd nb) ds ds'"
proof (induction ds arbitrary: ds')
  case Nil
  then show ?case by auto
next
  case (Cons d ds)
  show ?case
  proof (cases "classify_document self nd nb d")
    case (Inl x)
    then have "\<not> four_steps self nd nb d y" for y
      by (simp add: classify_document_Inr_iff [symmetric])
    with Inl show ?thesis
      by (cases x) (auto simp: list_all2_Cons1)
  next
    case (Inr d1)
    then have fs: "four_steps self nd nb d y \<longleftrightarrow> y = d1" for y
      by (auto simp: classify_document_Inr_iff [symmetric])
    show ?thesis
    proof (cases "classify_documents self nd nb ds")
      case (Inl x)
      then have "\<not> list_all2 (four_steps self nd nb) ds zs" for zs
        by (simp add: Cons.IH [symmetric])
      with Inl Inr show ?thesis
        by (cases x) (auto simp: list_all2_Cons1)
    next
      case r: (Inr ds1)
      then have "list_all2 (four_steps self nd nb) ds zs \<longleftrightarrow> zs = ds1" for zs
        by (auto simp: Cons.IH [symmetric])
      with r Inr fs show ?thesis
        by (auto simp: list_all2_Cons1)
    qed
  qed
qed

lemma classify_documents_Inl_iff:
  "classify_documents self nd nb ds = Inl (e, ds') \<longleftrightarrow>
     (\<exists>pre d post pre' d'. ds = pre @ d # post \<and> list_all2 (four_steps self nd nb) pre pre' \<and>
        classify_document self nd nb d = Inl (e, d') \<and> ds' = pre' @ d' # post)"
proof (induction ds arbitrary: ds')
  case Nil
  then show ?case by simp
next
  case (Cons a ds)
  show ?case
  proof (cases "classify_document self nd nb a")
    case (Inl x)
    then have nf: "\<not> four_steps self nd nb a y" for y
      by (simp add: classify_document_Inr_iff [symmetric])
    obtain e0 a0 where x: "x = (e0, a0)" by (cases x)
    have "(\<exists>pre d post pre' d'. a # ds = pre @ d # post \<and> list_all2 (four_steps self nd nb) pre pre' \<and>
        classify_document self nd nb d = Inl (e, d') \<and> ds' = pre' @ d' # post) \<longleftrightarrow>
        e = e0 \<and> ds' = a0 # ds" (is "?L \<longleftrightarrow> ?R")
    proof
      assume ?L
      then obtain pre d post pre' d' where s: "a # ds = pre @ d # post"
        and l: "list_all2 (four_steps self nd nb) pre pre'"
        and c: "classify_document self nd nb d = Inl (e, d')" and r: "ds' = pre' @ d' # post"
        by blast
      show ?R
      proof (cases pre)
        case Nil
        with s l c r Inl x show ?thesis by simp
      next
        case (Cons b bs)
        with s have "b = a" by simp
        with Cons l nf show ?thesis by (auto simp: list_all2_Cons1)
      qed
    next
      assume ?R
      with Inl x have "a # ds = [] @ a # ds \<and> list_all2 (four_steps self nd nb) [] [] \<and>
        classify_document self nd nb a = Inl (e, a0) \<and> ds' = [] @ a0 # ds"
        by simp
      then show ?L by blast
    qed
    with Inl x show ?thesis by auto
  next
    case (Inr a1)
    then have fs: "four_steps self nd nb a y \<longleftrightarrow> y = a1" for y
      by (auto simp: classify_document_Inr_iff [symmetric])
    have "(\<exists>pre d post pre' d'. a # ds = pre @ d # post \<and> list_all2 (four_steps self nd nb) pre pre' \<and>
        classify_document self nd nb d = Inl (e, d') \<and> ds' = pre' @ d' # post) \<longleftrightarrow>
        (\<exists>ds1. ds' = a1 # ds1 \<and> classify_documents self nd nb ds = Inl (e, ds1))" (is "?L \<longleftrightarrow> ?R")
    proof
      assume ?L
      then obtain pre d post pre' d' where s: "a # ds = pre @ d # post"
        and l: "list_all2 (four_steps self nd nb) pre pre'"
        and c: "classify_document self nd nb d = Inl (e, d')" and r: "ds' = pre' @ d' # post"
        by blast
      show ?R
      proof (cases pre)
        case Nil
        with s c Inr show ?thesis by simp
      next
        case (Cons b bs)
        with s have b: "b = a" and ds: "ds = bs @ d # post" by simp_all
        from Cons l b fs obtain bs' where p: "pre' = a1 # bs'"
          and l': "list_all2 (four_steps self nd nb) bs bs'"
          by (auto simp: list_all2_Cons1)
        from ds l' c have "classify_documents self nd nb ds = Inl (e, bs' @ d' # post)"
          unfolding Cons.IH by blast
        with r p show ?thesis by simp
      qed
    next
      assume ?R
      then obtain ds1 where r: "ds' = a1 # ds1"
        and c: "classify_documents self nd nb ds = Inl (e, ds1)"
        by blast
      from c obtain pre d post pre' d' where s: "ds = pre @ d # post"
        and l: "list_all2 (four_steps self nd nb) pre pre'"
        and cd: "classify_document self nd nb d = Inl (e, d')" and r1: "ds1 = pre' @ d' # post"
        unfolding Cons.IH by blast
      from s l cd r r1 fs have "a # ds = (a # pre) @ d # post \<and>
        list_all2 (four_steps self nd nb) (a # pre) (a1 # pre') \<and>
        classify_document self nd nb d = Inl (e, d') \<and> ds' = (a1 # pre') @ d' # post"
        by simp
      then show ?L by blast
    qed
    with Inr show ?thesis by (auto split: sum.splits)
  qed
qed

lemma del_sentences_Inr:
  "del_sentences d3 = Inr d' \<longleftrightarrow>
     (\<exists>p ps. passages d3 = p # ps \<and> d' = d3\<lparr>passages := p\<lparr>sentences := []\<rparr> # ps\<rparr>)"
  by (auto simp: del_sentences_def split: list.splits)

lemma del_sentences_Inl:
  "del_sentences d3 = Inl x \<longleftrightarrow> passages d3 = [] \<and> x = (Exception ''IndexError'', d3)"
  by (auto simp: del_sentences_def split: list.splits)

lemma classify_success:
  "classify self nd nb c =
     \<lparr>printed = out, collection_after = c', failure = None\<rparr> \<longleftrightarrow>
   out = (if verbose self then [''Classifying mentions...''] else []) \<and>
   (\<exists>ds'. classify_documents self nd nb (documents c) = Inr ds' \<and> c' = c\<lparr>documents := ds'\<rparr>)"
  by (auto simp: classify_def split: sum.splits)

lemma classify_failure:
  "classify self nd nb c =
     \<lparr>printed = out, collection_after = c', failure = Some e\<rparr> \<longleftrightarrow>
   out = (if verbose self then [''Classifying mentions...''] else []) \<and>
   (\<exists>ds'. classify_documents self nd nb (documents c) = Inl (e, ds') \<and> c' = c\<lparr>documents := ds'\<rparr>)"
  by (auto simp: classify_def split: sum.splits)

text \<open>The example stages on the example documents.\<close>

lemmas ex_doc_defs = ex_doc1_def ex_doc2_def ex_doc_blank_def ex_doc_no_passage_def
  ex_doc1_after_def ex_doc2_after_def ex_classifier_def ex_negdetect_def ex_convert_def

lemma ex_raised_ok: "text_of s \<noteq> [] \<Longrightarrow> raised (detect ex_nb ex_detector s locs) = None"
  by (simp add: detect_def ex_nb_def ex_load_def)

lemma ex_raised_blank:
  "raised (detect ex_nb ex_detector ex_blank locs) = Some (Exception ''KeyError'')"
  by (simp add: detect_def detect_failed_def ex_nb_def ex_load_def ex_blank_def)

lemma ex_classify_doc1:
  "classify_document ex_classifier ex_negdetect ex_nb ex_doc1 = Inr ex_doc1_after"
  by (simp add: classify_document_def del_sentences_def ex_doc_defs ex_raised_ok ex_sentence_def)

lemma ex_classify_doc2:
  "classify_document ex_classifier ex_negdetect ex_nb ex_doc2 = Inr ex_doc2_after"
  by (simp add: classify_document_def del_sentences_def ex_doc_defs ex_raised_ok ex_sentence_def)

lemma ex_classify_blank:
  "classify_document ex_classifier ex_negdetect ex_nb ex_doc_blank =
     Inl (Exception ''KeyError'', ex_doc_blank)"
  by (simp add: classify_document_def del_sentences_def ex_doc_defs ex_raised_blank)

text \<open>
  Claim C7. \<open>classify\<close> takes the documents one after the other in collection order and
  passes each through the four steps in order: \<open>parse_doc\<close>, \<open>convert_doc\<close>, the
  aggregation routine given the \<open>detect\<close> of the classifier's own detector, and the
  removal of the sentences; each step runs once, on what the step before it left. The call
  succeeds exactly when every document passes the four steps, and then the collection
  holds the results. It fails with \<open>e\<close> exactly when the documents before some document
  pass, a step raises \<open>e\<close> on that document, and the documents after it are as they
  were: nothing is retried, and the failure of a step is the failure of the call.
\<close>

theorem classify_sequential_four_steps:
  "(classify self nd nb c = \<lparr>printed = out, collection_after = c', failure = None\<rparr> \<longleftrightarrow>
      out = (if verbose self then [''Classifying mentions...''] else []) \<and>
      (\<exists>ds'. list_all2 (four_steps self nd nb) (documents c) ds' \<and> c' = c\<lparr>documents := ds'\<rparr>)) \<and>
   (classify self nd nb c = \<lparr>printed = out, collection_after = c', failure = Some e\<rparr> \<longleftrightarrow>
      out = (if verbose self then [''Classifying mentions...''] else []) \<and>
      (\<exists>pre d post pre' d'. documents c = pre @ d # post \<and>
         list_all2 (four_steps self nd nb) pre pre' \<and>
         classify_document self nd nb d = Inl (e, d') \<and>
         c' = c\<lparr>documents := pre' @ d' # post\<rparr>)) \<and>
   (classify_document self nd nb d = Inl x \<longleftrightarrow>
      parser self d = Inl x \<or>
      (\<exists>d1. parser self d = Inr d1 \<and>
         (ptb2dep self d1 = Inl x \<or>
          (\<exists>d2. ptb2dep self d1 = Inr d2 \<and>
             (nd (detect nb (detector self)) d2 = Inl x \<or>
              (\<exists>d3. nd (detect nb (detector self)) d2 = Inr d3 \<and>
                 del_sentences d3 = Inl x))))))"
proof (intro conjI)
  show "classify self nd nb c = \<lparr>printed = out, collection_after = c', failure = None\<rparr> \<longleftrightarrow>
      out = (if verbose self then [''Classifying mentions...''] else []) \<and>
      (\<exists>ds'. list_all2 (four_steps self nd nb) (documents c) ds' \<and> c' = c\<lparr>documents := ds'\<rparr>)"
    unfolding classify_success classify_documents_Inr_iff ..
  show "classify self nd nb c = \<lparr>printed = out, collection_after = c', failure = Some e\<rparr> \<longleftrightarrow>
      out = (if verbose self then [''Classifying mentions...''] else []) \<and>
      (\<exists>pre d post pre' d'. documents c = pre @ d # post \<and>
         list_all2 (four_steps self nd nb) pre pre' \<and>
         classify_document self nd nb d = Inl (e, d') \<and>
         c' = c\<lparr>documents := pre' @ d' # post\<rparr>)"
    unfolding classify_failure classify_documents_Inl_iff by blast
  show "classify_document self nd nb d = Inl x \<longleftrightarrow>
      parser self d = Inl x \<or>
      (\<exists>d1. parser self d = Inr d1 \<and>
         (ptb2dep self d1 = Inl x \<or>
          (\<exists>d2. ptb2dep self d1 = Inr d2 \<and>
             (nd (detect nb (detector self)) d2 = Inl x \<or>
              (\<exists>d3. nd (detect nb (detector self)) d2 = Inr d3 \<and>
                 del_sentences d3 = Inl x)))))"
    by (rule classify_document_Inl_iff)
qed

theorem classify_sequential_four_steps_witness:
  "classify ex_classifier ex_negdetect ex_nb \<lparr>documents = [ex_doc1, ex_doc2]\<rparr> =
     \<lparr>printed = [], collection_after = \<lparr>documents = [ex_doc1_after, ex_doc2_after]\<rparr>,
      failure = None\<rparr> \<and>
   classify ex_classifier ex_negdetect ex_nb \<lparr>documents = [ex_doc1, ex_doc_blank, ex_doc2]\<rparr> =
     \<lparr>printed = [], collection_after = \<lparr>documents = [ex_doc1_after, ex_doc_blank, ex_doc2]\<rparr>,
      failure = Some (Exception ''KeyError'')\<rparr>"
proof -
  note t = classify_sequential_four_steps [of ex_classifier ex_negdetect ex_nb]
  have f1: "four_steps ex_classifier ex_negdetect ex_nb ex_doc1 ex_doc1_after"
    using ex_classify_doc1 by (simp add: classify_document_Inr_iff)
  have f2: "four_steps ex_classifier ex_negdetect ex_nb ex_doc2 ex_doc2_after"
    using ex_classify_doc2 by (simp add: classify_document_Inr_iff)
  have v: "\<not> verbose ex_classifier" by (simp add: ex_classifier_def)
  have "\<exists>ds'. list_all2 (four_steps ex_classifier ex_negdetect ex_nb)
          (documents \<lparr>documents = [ex_doc1, ex_doc2]\<rparr>) ds' \<and>
        \<lparr>documents = [ex_doc1_after, ex_doc2_after]\<rparr> =
          \<lparr>documents = [ex_doc1, ex_doc2]\<rparr>\<lparr>documents := ds'\<rparr>"
    using f1 f2 by (intro exI [of _ "[ex_doc1_after, ex_doc2_after]"]) simp
  with v t have a: "classify ex_classifier ex_negdetect ex_nb \<lparr>documents = [ex_doc1, ex_doc2]\<rparr> =
     \<lparr>printed = [], collection_after = \<lparr>documents = [ex_doc1_after, ex_doc2_after]\<rparr>,
      failure = None\<rparr>"
    by simp
  have "\<exists>pre d post pre' d'.
      documents \<lparr>documents = [ex_doc1, ex_doc_blank, ex_doc2]\<rparr> = pre @ d # post \<and>
      list_all2 (four_steps ex_classifier ex_negdetect ex_nb) pre pre' \<and>
      classify_document ex_classifier ex_negdetect ex_nb d = Inl (Exception ''KeyError'', d') \<and>
      \<lparr>documents = [ex_doc1_after, ex_doc_blank, ex_doc2]\<rparr> =
        \<lparr>documents = [ex_doc1, ex_doc_blank, ex_doc2]\<rparr>\<lparr>documents := pre' @ d' # post\<rparr>"
    apply (rule exI [of _ "[ex_doc1]"])
    apply (rule exI [of _ "ex_doc_blank"])
    apply (rule exI [of _ "[ex_doc2]"])
    apply (rule exI [of _ "[ex_doc1_after]"])
    apply (rule exI [of _ "ex_doc_blank"])
    apply (simp add: f1 ex_classify_blank)
    done
  with v t have b: "classify ex_classifier ex_negdetect ex_nb
       \<lparr>documents = [ex_doc1, ex_doc_blank, ex_doc2]\<rparr> =
     \<lparr>printed = [], collection_after = \<lparr>documents = [ex_doc1_after, ex_doc_blank, ex_doc2]\<rparr>,
      failure = Some (Exception ''KeyError'')\<rparr>"
    by simp
  from a b show ?thesis by simp
qed

text \<open>
  Claim C8, as stated: after \<open>classify\<close> has processed a document, the sentence text of the
  document is no longer retained. It fails for a document with a second passage: only
  \<open>passages[0]\<close> loses its sentences, and the text of the second passage is still there.
\<close>

theorem later_passages_keep_sentence_text:
  "classify ex_classifier ex_negdetect ex_nb \<lparr>documents = [ex_doc2]\<rparr> =
     \<lparr>printed = [], collection_after = \<lparr>documents = [ex_doc2_after]\<rparr>, failure = None\<rparr> \<and>
   retained_text ex_doc2_after = [''heart size is normal'']"
proof -
  have "verbose ex_classifier = False"
    by (simp add: ex_classifier_def)
  then show ?thesis
    by (simp add: classify_def ex_classify_doc2 retained_text_def ex_doc2_after_def)
qed

text \<open>
  Claim C8, amended. After \<open>classify\<close> has processed a document, the sentences of its
  first passage are discarded and nothing else is changed: the document is the one the
  detection step left, with the sentence list of the first passage emptied, so the text
  it retains is the text of the passages after the first. After a successful call every
  document of the collection has a first passage without sentences.
\<close>

theorem first_passage_sentences_discarded:
  "(classify_document self nd nb d = Inr d' \<longrightarrow>
      (\<exists>d1 d2 d3 p ps. parser self d = Inr d1 \<and> ptb2dep self d1 = Inr d2 \<and>
         nd (detect nb (detector self)) d2 = Inr d3 \<and> passages d3 = p # ps \<and>
         d' = d3\<lparr>passages := p\<lparr>sentences := []\<rparr> # ps\<rparr> \<and>
         retained_text d' = concat (map (\<lambda>q. map text_of (sentences q)) ps))) \<and>
   (classify self nd nb c = \<lparr>printed = out, collection_after = c', failure = None\<rparr> \<longrightarrow>
      (\<forall>d'\<in>set (documents c'). \<exists>p ps. passages d' = p # ps \<and> sentences p = []))"
proof (intro conjI impI)
  assume "classify_document self nd nb d = Inr d'"
  then obtain d1 d2 d3 where s: "parser self d = Inr d1" "ptb2dep self d1 = Inr d2"
    "nd (detect nb (detector self)) d2 = Inr d3" and del: "del_sentences d3 = Inr d'"
    unfolding classify_document_Inr_iff four_steps_def by blast
  from del obtain p ps where p: "passages d3 = p # ps"
    and d': "d' = d3\<lparr>passages := p\<lparr>sentences := []\<rparr> # ps\<rparr>"
    unfolding del_sentences_Inr by blast
  from d' have "retained_text d' = concat (map (\<lambda>q. map text_of (sentences q)) ps)"
    by (simp add: retained_text_def)
  with s p d' show "\<exists>d1 d2 d3 p ps. parser self d = Inr d1 \<and> ptb2dep self d1 = Inr d2 \<and>
         nd (detect nb (detector self)) d2 = Inr d3 \<and> passages d3 = p # ps \<and>
         d' = d3\<lparr>passages := p\<lparr>sentences := []\<rparr> # ps\<rparr> \<and>
         retained_text d' = concat (map (\<lambda>q. map text_of (sentences q)) ps)"
    by blast
next
  assume "classify self nd nb c = \<lparr>printed = out, collection_after = c', failure = None\<rparr>"
  then obtain ds' where l: "list_all2 (four_steps self nd nb) (documents c) ds'"
    and c': "c' = c\<lparr>documents := ds'\<rparr>"
    unfolding classify_success classify_documents_Inr_iff by blast
  show "\<forall>d'\<in>set (documents c'). \<exists>p ps. passages d' = p # ps \<and> sentences p = []"
  proof
    fix d'
    assume "d' \<in> set (documents c')"
    with c' have "d' \<in> set ds'" by simp
    with l obtain d where "four_steps self nd nb d d'"
      by (auto simp: list_all2_conv_all_nth in_set_conv_nth)
    then obtain d3 where "del_sentences d3 = Inr d'"
      unfolding four_steps_def by blast
    then obtain p ps where "passages d3 = p # ps" "d' = d3\<lparr>passages := p\<lparr>sentences := []\<rparr> # ps\<rparr>"
      unfolding del_sentences_Inr by blast
    then have "passages d' = p\<lparr>sentences := []\<rparr> # ps \<and> sentences (p\<lparr>sentences := []\<rparr>) = []"
      by simp
    then show "\<exists>p ps. passages d' = p # ps \<and> sentences p = []" by blast
  qed
qed

theorem first_passage_sentences_discarded_witness:
  "classify_document ex_classifier ex_negdetect ex_nb ex_doc2 = Inr ex_doc2_after \<and>
   passages ex_doc2_after =
     [\<lparr>sentences = []\<rparr>, \<lparr>sentences = [\<lparr>offset = 200, text_of = ''heart size is normal''\<rparr>]\<rparr>] \<and>
   retained_text ex_doc2_after = [''heart size is normal''] \<and>
   retained_text ex_doc2 = [''no pleural effusion'', ''heart size is normal'']"
proof -
  have c: "classify_document ex_classifier ex_negdetect ex_nb ex_doc2 = Inr ex_doc2_after"
    by (rule ex_classify_doc2)
  with first_passage_sentences_discarded [of ex_classifier ex_negdetect ex_nb ex_doc2 ex_doc2_after]
  obtain d1 d2 d3 p ps where s: "parser ex_classifier ex_doc2 = Inr d1"
    "ptb2dep ex_classifier d1 = Inr d2"
    "ex_negdetect (detect ex_nb (detector ex_classifier)) d2 = Inr d3"
    and p: "passages d3 = p # ps"
    and r: "retained_text ex_doc2_after = concat (map (\<lambda>q. map text_of (sentences q)) ps)"
    by blast
  from s have "d3 = ex_doc2"
    by (auto simp: ex_classifier_def ex_convert_def ex_negdetect_def split: if_splits option.splits)
  with p have "ps = [\<lparr>sentences = [\<lparr>offset = 200, text_of = ''heart size is normal''\<rparr>]\<rparr>]"
    by (simp add: ex_doc2_def)
  with r have "retained_text ex_doc2_after = [''heart size is normal'']" by simp
  moreover have "retained_text ex_doc2 = [''no pleural effusion'', ''heart size is normal'']"
    by (simp add: retained_text_def ex_doc2_def ex_sentence_def)
  moreover have "passages ex_doc2_after =
     [\<lparr>sentences = []\<rparr>, \<lparr>sentences = [\<lparr>offset = 200, text_of = ''heart size is normal''\<rparr>]\<rparr>]"
    by (simp add: ex_doc2_after_def)
  ultimately show ?thesis using c by simp
qed

text \<open>
  Claim C10. The removal step indexes the first passage unconditionally, so \<open>classify\<close>
  needs a first passage in every document of the collection. For a document that reaches
  the step, the step fails with \<open>IndexError\<close> exactly when the passage list is empty.
  Wherever such a document stands in the collection, once the documents before it have
  passed the four steps the call fails with \<open>IndexError\<close>, leaving those documents
  classified, this one as the detection step left it and the documents after it untouched;
  so a call that succeeds had no such document. Otherwise the step empties the sentence
  list of the first passage only, and the passages after the first keep their sentences.
\<close>

theorem classify_needs_a_first_passage:
  assumes "parser self d = Inr d1" and "ptb2dep self d1 = Inr d2"
    and "nd (detect nb (detector self)) d2 = Inr d3"
  shows "(classify_document self nd nb d = Inl (Exception ''IndexError'', d3) \<longleftrightarrow>
        passages d3 = []) \<and>
     (passages d3 = [] \<and> documents c = pre @ d # post \<and>
      list_all2 (four_steps self nd nb) pre pre' \<longrightarrow>
        failure (classify self nd nb c) = Some (Exception ''IndexError'') \<and>
        documents (collection_after (classify self nd nb c)) = pre' @ d3 # post) \<and>
     (d \<in> set (documents c) \<and> failure (classify self nd nb c) = None \<longrightarrow>
        passages d3 \<noteq> []) \<and>
     (passages d3 \<noteq> [] \<longrightarrow>
        (\<exists>d'. classify_document self nd nb d = Inr d' \<and> sentences (hd (passages d')) = [] \<and>
           tl (passages d') = tl (passages d3) \<and>
           map sentences (tl (passages d')) = map sentences (tl (passages d3))))"
proof -
  have cd: "classify_document self nd nb d = del_sentences d3"
    using assms by (simp add: classify_document_def)
  have a: "classify_document self nd nb d = Inl (Exception ''IndexError'', d3) \<longleftrightarrow>
        passages d3 = []"
    unfolding cd del_sentences_Inl by simp
  have b: "failure (classify self nd nb c) = Some (Exception ''IndexError'') \<and>
        documents (collection_after (classify self nd nb c)) = pre' @ d3 # post"
    if e: "passages d3 = []" and s: "documents c = pre @ d # post"
      and l: "list_all2 (four_steps self nd nb) pre pre'"
  proof -
    from e a have "classify_document self nd nb d = Inl (Exception ''IndexError'', d3)"
      by simp
    with s l have "\<exists>pre0 d0 post0 pre0' d0'. documents c = pre0 @ d0 # post0 \<and>
        list_all2 (four_steps self nd nb) pre0 pre0' \<and>
        classify_document self nd nb d0 = Inl (Exception ''IndexError'', d0') \<and>
        pre' @ d3 # post = pre0' @ d0' # post0"
      by blast
    then have "classify_documents self nd nb (documents c) =
        Inl (Exception ''IndexError'', pre' @ d3 # post)"
      unfolding classify_documents_Inl_iff .
    then show ?thesis by (simp add: classify_def)
  qed
  have n: "passages d3 \<noteq> []"
    if m: "d \<in> set (documents c)" and f: "failure (classify self nd nb c) = None"
  proof -
    from f obtain ds' where "classify_documents self nd nb (documents c) = Inr ds'"
      by (cases "classify_documents self nd nb (documents c)")
        (auto simp: classify_def Let_def)
    then have "list_all2 (four_steps self nd nb) (documents c) ds'"
      by (simp add: classify_documents_Inr_iff)
    with m obtain d' where "four_steps self nd nb d d'"
      by (auto simp: list_all2_conv_all_nth in_set_conv_nth)
    then have "classify_document self nd nb d = Inr d'"
      by (simp add: classify_document_Inr_iff)
    with cd have "del_sentences d3 = Inr d'" by simp
    then show ?thesis unfolding del_sentences_Inr by auto
  qed
  have c: "\<exists>d'. classify_document self nd nb d = Inr d' \<and> sentences (hd (passages d')) = [] \<and>
           tl (passages d') = tl (passages d3) \<and>
           map sentences (tl (passages d')) = map sentences (tl (passages d3))"
    if "passages d3 \<noteq> []"
  proof -
    from that obtain p ps where "passages d3 = p # ps" by (cases "passages d3") auto
    then show ?thesis unfolding cd by (simp add: del_sentences_def)
  qed
  from a b n c show ?thesis by blast
qed

theorem classify_needs_a_first_passage_witness:
  "parser ex_classifier ex_doc_no_passage = Inr ex_doc_no_passage \<and>
   ptb2dep ex_classifier ex_doc_no_passage = Inr ex_doc_no_passage \<and>
   ex_negdetect (detect ex_nb (detector ex_classifier)) ex_doc_no_passage = Inr ex_doc_no_passage \<and>
   passages ex_doc_no_passage = [] \<and>
   list_all2 (four_steps ex_classifier ex_negdetect ex_nb) [ex_doc1] [ex_doc1_after] \<and>
   classify_document ex_classifier ex_negdetect ex_nb ex_doc_no_passage =
     Inl (Exception ''IndexError'', ex_doc_no_passage) \<and>
   failure (classify ex_classifier ex_negdetect ex_nb
       \<lparr>documents = [ex_doc1, ex_doc_no_passage, ex_doc2]\<rparr>)
     = Some (Exception ''IndexError'') \<and>
   documents (collection_after (classify ex_classifier ex_negdetect ex_nb
       \<lparr>documents = [ex_doc1, ex_doc_no_passage, ex_doc2]\<rparr>))
     = [ex_doc1_after, ex_doc_no_passage, ex_doc2] \<and>
   failure (classify ex_classifier ex_negdetect ex_nb \<lparr>documents = [ex_doc_no_passage, ex_doc1]\<rparr>)
     = Some (Exception ''IndexError'') \<and>
   documents (collection_after
     (classify ex_classifier ex_negdetect ex_nb \<lparr>documents = [ex_doc_no_passage, ex_doc1]\<rparr>))
     = [ex_doc_no_passage, ex_doc1]"
proof -
  have s: "parser ex_classifier ex_doc_no_passage = Inr ex_doc_no_passage"
    "ptb2dep ex_classifier ex_doc_no_passage = Inr ex_doc_no_passage"
    "ex_negdetect (detect ex_nb (detector ex_classifier)) ex_doc_no_passage = Inr ex_doc_no_passage"
    by (simp_all add: ex_classifier_def ex_convert_def ex_negdetect_def ex_doc_no_passage_def)
  have e: "passages ex_doc_no_passage = []"
    by (simp add: ex_doc_no_passage_def)
  have l: "list_all2 (four_steps ex_classifier ex_negdetect ex_nb) [ex_doc1] [ex_doc1_after]"
    using ex_classify_doc1 by (simp add: classify_document_Inr_iff)
  have l0: "list_all2 (four_steps ex_classifier ex_negdetect ex_nb) [] []"
    by simp
  have c1: "documents \<lparr>documents = [ex_doc1, ex_doc_no_passage, ex_doc2]\<rparr> =
      [ex_doc1] @ ex_doc_no_passage # [ex_doc2]"
    by simp
  have c2: "documents \<lparr>documents = [ex_doc_no_passage, ex_doc1]\<rparr> =
      [] @ ex_doc_no_passage # [ex_doc1]"
    by simp
  note t = classify_needs_a_first_passage [of ex_classifier ex_doc_no_passage ex_doc_no_passage ex_doc_no_passage
      ex_negdetect ex_nb ex_doc_no_passage, OF s]
  from t [of "\<lparr>documents = [ex_doc1, ex_doc_no_passage, ex_doc2]\<rparr>" "[ex_doc1]" "[ex_doc2]"
      "[ex_doc1_after]"] e c1 l
  have a: "classify_document ex_classifier ex_negdetect ex_nb ex_doc_no_passage =
     Inl (Exception ''IndexError'', ex_doc_no_passage)"
    and b: "failure (classify ex_classifier ex_negdetect ex_nb
       \<lparr>documents = [ex_doc1, ex_doc_no_passage, ex_doc2]\<rparr>) = Some (Exception ''IndexError'')"
    "documents (collection_after (classify ex_classifier ex_negdetect ex_nb
       \<lparr>documents = [ex_doc1, ex_doc_no_passage, ex_doc2]\<rparr>))
     = [ex_doc1_after, ex_doc_no_passage, ex_doc2]"
    by simp_all
  from t [of "\<lparr>documents = [ex_doc_no_passage, ex_doc1]\<rparr>" "[]" "[ex_doc1]" "[]"] e c2 l0
  have c: "failure (classify ex_classifier ex_negdetect ex_nb
       \<lparr>documents = [ex_doc_no_passage, ex_doc1]\<rparr>) = Some (Exception ''IndexError'')"
    "documents (collection_after (classify ex_classifier ex_negdetect ex_nb
       \<lparr>documents = [ex_doc_no_passage, ex_doc1]\<rparr>)) = [ex_doc_no_passage, ex_doc1]"
    by simp_all
  from s e l a b c show ?thesis by simp
qed

end
